theory Spec2Isabelle
  imports Complex_Main
begin

section \<open>Travel cost simulator: the two calculators of app.py\<close>

text \<open>
  The module app.py holds two calculation functions, \<open>calcular_combustivel\<close> and
  \<open>calcular_custos_completos\<close>, two formatting helpers, \<open>formatar_moeda\<close> and
  \<open>formatar_numero\<close>, and the script of the page, which reads the formatted amounts
  back into numbers for its chart.

  Numbers: the Python values are ints and floats. They are modelled by exact rationals
  (\<open>rat\<close>); the rounding error of binary floating point, infinities and NaN are outside
  the model. Strings are \<open>char list\<close>s; the model covers ASCII text.
  A call either raises (\<open>Inl\<close>), returns \<open>None\<close> (\<open>Inr None\<close>) or returns a
  dictionary (\<open>Inr (Some d)\<close>). A dictionary is the list of its items in insertion order.
\<close>

subsection \<open>Python values, errors, division\<close>

datatype py_error = ZeroDivisionError | ValueError

datatype py_val = Num rat | Str string

type_synonym py_dict = "(string \<times> py_val) list"

text \<open>The operator \<open>/\<close> on numbers: it raises on a zero divisor.\<close>

definition truediv :: "rat \<Rightarrow> rat \<Rightarrow> py_error + rat" where
  "truediv a b = (if b = 0 then Inl ZeroDivisionError else Inr (a / b))"

subsection \<open>Strings: \<open>str.replace\<close> and \<open>str.upper\<close>\<close>

text \<open>
  \<open>s.replace(old, new)\<close> replaces the occurrences of \<open>old\<close> from left to right,
  without overlap. With an empty \<open>old\<close>, \<open>new\<close> is put before every character and at the end.
\<close>

function replace_py :: "string \<Rightarrow> string \<Rightarrow> string \<Rightarrow> string" where
  "replace_py [] old new = (if old = [] then new else [])"
| "replace_py (c # cs) old new =
     (if old = [] then new @ c # replace_py cs old new
      else if take (length old) (c # cs) = old
           then new @ replace_py (drop (length old) (c # cs)) old new
      else c # replace_py cs old new)"
  by pat_completeness auto
termination
  by (relation "measure (\<lambda>(s, old, new). length s)") (auto simp: neq_Nil_conv)

text \<open>\<open>str.upper\<close> on ASCII text: the letters a to z become A to Z.\<close>

definition upper_char :: "char \<Rightarrow> char" where
  "upper_char c =
     (let k = (of_char c :: nat) in if 97 \<le> k \<and> k \<le> 122 then char_of (k - 32) else c)"

definition upper_py :: "string \<Rightarrow> string" where
  "upper_py s = map upper_char s"

subsection \<open>Number formatting: the format specifications \<open>,.2f\<close> and \<open>.0f\<close>\<close>

text \<open>
  Fixed-point formatting rounds the magnitude to the requested number of decimals, ties to
  the even neighbour, and prints a minus sign for every negative value, also when the
  rounded magnitude is zero.
\<close>

definition round_half_even :: "rat \<Rightarrow> int" where
  "round_half_even x =
     (let f = \<lfloor>x\<rfloor>; r = x - of_int f
      in if r < 1 / 2 then f else if 1 / 2 < r then f + 1
         else if even f then f else f + 1)"

definition digit_char :: "nat \<Rightarrow> char" where
  "digit_char d = char_of (48 + d)"

fun dec_digits :: "nat \<Rightarrow> string" where
  "dec_digits n =
     (if n < 10 then [digit_char n] else dec_digits (n div 10) @ [digit_char (n mod 10)])"

declare dec_digits.simps [simp del]

text \<open>The option \<open>,\<close>: the integer part in groups of three digits from the right.\<close>

fun group_thousands :: "nat \<Rightarrow> string" where
  "group_thousands n =
     (if n < 1000 then dec_digits n
      else group_thousands (n div 1000) @
           CHR '','' # [digit_char (n mod 1000 div 100), digit_char (n mod 100 div 10),
                      digit_char (n mod 10)])"

declare group_thousands.simps [simp del]

definition format_comma_2f :: "rat \<Rightarrow> string" where
  "format_comma_2f v =
     (let q = nat (round_half_even (\<bar>v\<bar> * 100))
      in (if v < 0 then ''-'' else []) @ group_thousands (q div 100) @
         CHR ''.'' # [digit_char (q mod 100 div 10), digit_char (q mod 10)])"

definition format_0f :: "rat \<Rightarrow> string" where
  "format_0f v = (if v < 0 then ''-'' else []) @ dec_digits (nat (round_half_even \<bar>v\<bar>))"

subsection \<open>The formatting helpers\<close>

text \<open>
  Lines 9 to 17 of app.py:
  \<^verbatim>\<open>
  def formatar_moeda(valor):
      return f"R$ {valor:,.2f}".replace(",", "X").replace(".", ",").replace("X", ".")

  def formatar_numero(valor, sufixo=""):
      return f"{valor:,.2f}".replace(",", "X").replace(".", ",").replace("X", ".") + sufixo
  \<close>
\<close>

definition formatar_moeda :: "rat \<Rightarrow> string" where
  "formatar_moeda valor =
     replace_py (replace_py (replace_py (''R$ '' @ format_comma_2f valor) '','' ''X'')
                            ''.'' '','')
                ''X'' ''.''"


subsection \<open>The fuel calculator\<close>


subsection \<open>The full trip calculator\<close>

text \<open>
  Lines 50 to 94 of app.py:
  \<^verbatim>\<open>
  def calcular_custos_completos(destino, num_dias, num_viajantes, custo_acomodacao_noite,
                                custo_transporte_total, custo_alimentacao_dia_pessoa,
                                custo_atividades_total, percentual_reserva):
      if num_dias <= 0 or num_viajantes <= 0:
          return None
      total_acomodacao = custo_acomodacao_noite * num_dias
      total_alimentacao = custo_alimentacao_dia_pessoa * num_dias * num_viajantes
      subtotal = total_acomodacao + custo_transporte_total + total_alimentacao + custo_atividades_total
      reserva = subtotal * (percentual_reserva / 100)
      custo_total_final = subtotal + reserva
      return {
          "destino": destino.upper(),
          "num_dias": num_dias,
          "num_viajantes": num_viajantes,
          "total_acomodacao": formatar_moeda(total_acomodacao),
          "total_alimentacao": formatar_moeda(total_alimentacao),
          "custo_transporte_total": formatar_moeda(custo_transporte_total),
          "custo_atividades_total": formatar_moeda(custo_atividades_total),
          "subtotal": formatar_moeda(subtotal),
          "percentual_reserva": f"{percentual_reserva:.0f}%",
          "reserva": formatar_moeda(reserva),
          "custo_total_final": formatar_moeda(custo_total_final),
          "custo_por_pessoa": formatar_moeda(custo_total_final / num_viajantes),
          "custo_por_dia_pessoa": formatar_moeda((custo_total_final / num_viajantes) / num_dias)
      }
  \<close>
  The source computes the fraction \<open>percentual_reserva / 100\<close> and the two quotients of the
  last entries inline; the model names them \<open>fracao\<close>, \<open>custo_por_pessoa\<close> and
  \<open>custo_por_dia_pessoa\<close>.
\<close>

definition calcular_custos_completos ::
  "string \<Rightarrow> rat \<Rightarrow> rat \<Rightarrow> rat \<Rightarrow> rat \<Rightarrow> rat \<Rightarrow> rat \<Rightarrow> rat \<Rightarrow> py_error + py_dict option" where
  "calcular_custos_completos destino num_dias num_viajantes custo_acomodacao_noite
       custo_transporte_total custo_alimentacao_dia_pessoa custo_atividades_total
       percentual_reserva =
     (if num_dias \<le> 0 \<or> num_viajantes \<le> 0 then Inr None
      else
        let total_acomodacao = custo_acomodacao_noite * num_dias;
            total_alimentacao = custo_alimentacao_dia_pessoa * num_dias * num_viajantes;
            subtotal = total_acomodacao + custo_transporte_total + total_alimentacao
                       + custo_atividades_total
        in case truediv percentual_reserva 100 of
             Inl e \<Rightarrow> Inl e
           | Inr fracao \<Rightarrow>
               let reserva = subtotal * fracao;
                   custo_total_final = subtotal + reserva
               in (case truediv custo_total_final num_viajantes of
                    Inl e \<Rightarrow> Inl e
                  | Inr custo_por_pessoa \<Rightarrow>
                      (case truediv custo_por_pessoa num_dias of
                         Inl e \<Rightarrow> Inl e
                       | Inr custo_por_dia_pessoa \<Rightarrow>
                           Inr (Some
                             [(''destino'', Str (upper_py destino)),
                              (''num_dias'', Num num_dias),
                              (''num_viajantes'', Num num_viajantes),
                              (''total_acomodacao'', Str (formatar_moeda total_acomodacao)),
                              (''total_alimentacao'', Str (formatar_moeda total_alimentacao)),
                              (''custo_transporte_total'',
                                 Str (formatar_moeda custo_transporte_total)),
                              (''custo_atividades_total'',
                                 Str (formatar_moeda custo_atividades_total)),
                              (''subtotal'', Str (formatar_moeda subtotal)),
                              (''percentual_reserva'', Str (format_0f percentual_reserva @ ''%'')),
                              (''reserva'', Str (formatar_moeda reserva)),
                              (''custo_total_final'', Str (formatar_moeda custo_total_final)),
                              (''custo_por_pessoa'', Str (formatar_moeda custo_por_pessoa)),
                              (''custo_por_dia_pessoa'',
                                 Str (formatar_moeda custo_por_dia_pessoa))]))))"

subsection \<open>Reading a formatted amount back: the chart values of the page\<close>

text \<open>
  The builtin \<open>float\<close> on a string. The model accepts the plain decimal literals: an
  optional sign, digits, and optionally a point followed by digits, with at least one digit
  overall. Every other string is answered with \<open>ValueError\<close>; the spellings that Python
  accepts beyond these (exponents, underscores, \<open>inf\<close>, \<open>nan\<close>, surrounding blanks) are
  never produced by the formatting helpers.
\<close>

definition digit_val :: "char \<Rightarrow> nat option" where
  "digit_val c =
     (let k = (of_char c :: nat) in if 48 \<le> k \<and> k \<le> 57 then Some (k - 48) else None)"

fun digits_val :: "string \<Rightarrow> nat \<Rightarrow> nat option" where
  "digits_val [] acc = Some acc"
| "digits_val (c # cs) acc =
     (case digit_val c of None \<Rightarrow> None | Some d \<Rightarrow> digits_val cs (10 * acc + d))"

definition unsigned_float_py :: "string \<Rightarrow> py_error + rat" where
  "unsigned_float_py s =
     (let ip = takeWhile (\<lambda>c. c \<noteq> CHR ''.'') s;
          fp = drop 1 (dropWhile (\<lambda>c. c \<noteq> CHR ''.'') s)
      in if ip = [] \<and> fp = [] then Inl ValueError
         else case (digits_val ip 0, digits_val fp 0) of
                (Some a, Some b) \<Rightarrow> Inr (of_nat a + of_nat b / 10 ^ length fp)
              | _ \<Rightarrow> Inl ValueError)"

fun float_py :: "string \<Rightarrow> py_error + rat" where
  "float_py [] = Inl ValueError"
| "float_py (c # cs) =
     (if c = CHR ''-'' then map_sum id uminus (unsigned_float_py cs)
      else if c = CHR ''+'' then unsigned_float_py cs
      else unsigned_float_py (c # cs))"

text \<open>
  One entry of the list \<open>valores_numericos\<close> (lines 178 to 184 of app.py): the currency
  prefix is removed, the thousands points are deleted, the decimal comma becomes a point and
  the text is converted.
  \<^verbatim>\<open>
  float(resultado["reserva"].replace("R$ ", "").replace(".", "").replace(",", "."))
  \<close>
\<close>

definition valor_numerico :: "string \<Rightarrow> py_error + rat" where
  "valor_numerico s =
     float_py (replace_py (replace_py (replace_py s ''R$ '' []) ''.'' []) '','' ''.'')"

subsection \<open>Auxiliary notions for the analysis\<close>

text \<open>
  The three replacements of the formatting helpers exchange the two separators of the
  formatted number: the comma becomes a point and the point a comma.
\<close>

definition br_sep :: "char \<Rightarrow> char" where
  "br_sep c = (if c = CHR '','' then CHR ''.'' else if c = CHR ''.'' then CHR '','' else c)"

text \<open>
  A number rounded to two decimal places, ties to the even neighbour: the nearest multiple
  of one hundredth.
\<close>

definition round_2dp :: "rat \<Rightarrow> rat" where
  "round_2dp v = of_int (round_half_even (v * 100)) / 100"

text \<open>
  \<open>resultado[chave]\<close>: the entry of the dictionary returned by a call; there is none
  when the call raised or returned \<open>None\<close>, or when the dictionary has no such key.
\<close>

definition campo :: "py_error + py_dict option \<Rightarrow> string \<Rightarrow> py_val option" where
  "campo resultado chave =
     (case resultado of Inr (Some d) \<Rightarrow> map_of d chave | _ \<Rightarrow> None)"

section \<open>The validation gates and the returned dictionaries\<close>

lemma truediv_nonzero: "b \<noteq> 0 \<Longrightarrow> truediv a b = Inr (a / b)"
  by (simp add: truediv_def)




lemma calcular_custos_completos_valid:
  assumes "0 < nd" "0 < nv"
  shows "calcular_custos_completos dest nd nv a t f atv pr =
     Inr (Some
       [(''destino'', Str (upper_py dest)),
        (''num_dias'', Num nd),
        (''num_viajantes'', Num nv),
        (''total_acomodacao'', Str (formatar_moeda (a * nd))),
        (''total_alimentacao'', Str (formatar_moeda (f * nd * nv))),
        (''custo_transporte_total'', Str (formatar_moeda t)),
        (''custo_atividades_total'', Str (formatar_moeda atv)),
        (''subtotal'', Str (formatar_moeda (a * nd + t + f * nd * nv + atv))),
        (''percentual_reserva'', Str (format_0f pr @ ''%'')),
        (''reserva'', Str (formatar_moeda ((a * nd + t + f * nd * nv + atv) * (pr / 100)))),
        (''custo_total_final'',
           Str (formatar_moeda (a * nd + t + f * nd * nv + atv
                                + (a * nd + t + f * nd * nv + atv) * (pr / 100)))),
        (''custo_por_pessoa'',
           Str (formatar_moeda ((a * nd + t + f * nd * nv + atv
                                 + (a * nd + t + f * nd * nv + atv) * (pr / 100)) / nv))),
        (''custo_por_dia_pessoa'',
           Str (formatar_moeda ((a * nd + t + f * nd * nv + atv
                                 + (a * nd + t + f * nd * nv + atv) * (pr / 100)) / nv / nd)))])"
proof -
  have g: "\<not> (nd \<le> 0 \<or> nv \<le> 0)"
    using assms by simp
  have d1: "truediv pr 100 = Inr (pr / 100)"
    by (simp add: truediv_nonzero)
  have d2: "\<And>x. truediv x nv = Inr (x / nv)" and d3: "\<And>x. truediv x nd = Inr (x / nd)"
    using assms by (simp_all add: truediv_nonzero)
  show ?thesis
    unfolding calcular_custos_completos_def
    by (simp only: g if_False d1 d2 d3 sum.case Let_def)
qed

section \<open>Strings: replacement and decimal digits\<close>

lemma replace_py_char_char:
  "replace_py s [a] [b] = map (\<lambda>c. if c = a then b else c) s"
  by (induction s) simp_all

lemma replace_py_char_del:
  "replace_py s [a] [] = filter (\<lambda>c. c \<noteq> a) s"
  by (induction s) simp_all

lemma replace_py_absent:
  "old \<noteq> [] \<Longrightarrow> hd old \<notin> set s \<Longrightarrow> replace_py s old new = s"
proof (induction s)
  case Nil
  then show ?case by simp
next
  case (Cons c cs)
  from Cons.prems have "take (length old) (c # cs) \<noteq> old"
    by (cases old) auto
  with Cons show ?case by simp
qed

lemma replace_py_prefix:
  "old \<noteq> [] \<Longrightarrow> replace_py (old @ s) old new = new @ replace_py s old new"
  by (cases old) simp_all

lemma swap_chain:
  assumes "CHR ''X'' \<notin> set s"
  shows "replace_py (replace_py (replace_py s '','' ''X'') ''.'' '','') ''X'' ''.'' = map br_sep s"
  using assms by (auto simp: replace_py_char_char br_sep_def)


lemma digit_char_simps:
  "digit_char 0 = CHR ''0''" "digit_char 1 = CHR ''1''" "digit_char 2 = CHR ''2''"
  "digit_char 3 = CHR ''3''" "digit_char 4 = CHR ''4''" "digit_char 5 = CHR ''5''"
  "digit_char 6 = CHR ''6''" "digit_char 7 = CHR ''7''" "digit_char 8 = CHR ''8''"
  "digit_char 9 = CHR ''9''" "digit_char (Suc 0) = CHR ''1''"
  by code_simp+

lemma lt10_cases:
  "(d::nat) < 10 \<Longrightarrow> d = 0 \<or> d = 1 \<or> d = 2 \<or> d = 3 \<or> d = 4 \<or> d = 5 \<or> d = 6 \<or> d = 7 \<or> d = 8 \<or> d = 9"
  by arith

lemma digit_val_digit_char: "d < 10 \<Longrightarrow> digit_val (digit_char d) = Some d"
  by (drule lt10_cases) (auto simp: digit_char_simps digit_val_def)

lemma digit_char_not_sep:
  "d < 10 \<Longrightarrow> digit_char d \<noteq> CHR '','' \<and> digit_char d \<noteq> CHR ''.'' \<and> digit_char d \<noteq> CHR ''-''
     \<and> digit_char d \<noteq> CHR ''+'' \<and> digit_char d \<noteq> CHR ''X'' \<and> digit_char d \<noteq> CHR ''R''"
  by (drule lt10_cases) (auto simp: digit_char_simps)

lemma dec_digits_lt10: "n < 10 \<Longrightarrow> dec_digits n = [digit_char n]"
  by (simp add: dec_digits.simps)

lemma dec_digits_ge10:
  "10 \<le> n \<Longrightarrow> dec_digits n = dec_digits (n div 10) @ [digit_char (n mod 10)]"
  by (subst dec_digits.simps) simp

lemma group_thousands_lt: "n < 1000 \<Longrightarrow> group_thousands n = dec_digits n"
  by (simp add: group_thousands.simps)

lemma group_thousands_ge:
  "1000 \<le> n \<Longrightarrow> group_thousands n = group_thousands (n div 1000) @
           CHR '','' # [digit_char (n mod 1000 div 100), digit_char (n mod 100 div 10),
                      digit_char (n mod 10)]"
  by (subst group_thousands.simps) simp

lemma dec_digits_set: "set (dec_digits n) \<subseteq> digit_char ` {..<10}"
proof (induction n rule: dec_digits.induct)
  case (1 n)
  show ?case
  proof (cases "n < 10")
    case True
    then show ?thesis by (simp add: dec_digits_lt10)
  next
    case False
    with 1 show ?thesis by (simp add: dec_digits_ge10)
  qed
qed

lemma dec_digits_not_Nil: "dec_digits n \<noteq> []"
  by (subst dec_digits.simps) simp

lemma digits_val_append:
  "digits_val (s @ t) acc =
     (case digits_val s acc of None \<Rightarrow> None | Some a \<Rightarrow> digits_val t a)"
  by (induction s arbitrary: acc) (simp_all split: option.splits)

lemma digits_val_dec_digits: "digits_val (dec_digits n) 0 = Some n"
proof (induction n rule: dec_digits.induct)
  case (1 n)
  show ?case
  proof (cases "n < 10")
    case True
    then show ?thesis by (simp add: dec_digits_lt10 digit_val_digit_char)
  next
    case False
    with 1 show ?thesis
      by (simp add: dec_digits_ge10 digits_val_append digit_val_digit_char)
  qed
qed

lemma mod_mult_div: "(n::nat) mod (a * b) div a = n div a mod b"
proof (cases "a = 0")
  case True
  then show ?thesis by simp
next
  case False
  then show ?thesis by (simp add: mod_mult2_eq)
qed

lemma dec_digits_ge1000:
  assumes "1000 \<le> n"
  shows "dec_digits n = dec_digits (n div 1000) @
     [digit_char (n mod 1000 div 100), digit_char (n mod 100 div 10), digit_char (n mod 10)]"
proof -
  have g1: "10 \<le> n" using assms by simp
  have g2: "10 \<le> n div 10"
    using assms by (simp add: less_eq_div_iff_mult_less_eq)
  have g3: "10 \<le> n div 100"
    using assms by (simp add: less_eq_div_iff_mult_less_eq)
  have e2: "n div 10 div 10 = n div 100" and e3: "n div 100 div 10 = n div 1000"
    by (simp_all add: div_mult2_eq [symmetric])
  have m2: "n div 10 mod 10 = n mod 100 div 10"
    using mod_mult_div [of n 10 10] by simp
  have m3: "n div 100 mod 10 = n mod 1000 div 100"
    using mod_mult_div [of n 100 10] by simp
  have "dec_digits n = dec_digits (n div 10) @ [digit_char (n mod 10)]"
    by (rule dec_digits_ge10 [OF g1])
  also have "dec_digits (n div 10) = dec_digits (n div 100) @ [digit_char (n mod 100 div 10)]"
    using dec_digits_ge10 [OF g2] by (simp only: e2 m2)
  also have "dec_digits (n div 100) = dec_digits (n div 1000) @ [digit_char (n mod 1000 div 100)]"
    using dec_digits_ge10 [OF g3] by (simp only: e3 m3)
  finally show ?thesis by simp
qed

lemma br_sep_digits:
  "set s \<subseteq> digit_char ` {..<10} \<Longrightarrow> map br_sep s = s"
  by (induction s) (auto simp: br_sep_def digit_char_not_sep)

lemma filter_digits:
  "set s \<subseteq> digit_char ` {..<10} \<Longrightarrow> filter (\<lambda>c. c \<noteq> CHR ''.'') s = s"
  by (induction s) (auto simp: digit_char_not_sep)

lemma ungroup_thousands:
  "filter (\<lambda>c. c \<noteq> CHR ''.'') (map br_sep (group_thousands n)) = dec_digits n"
proof (induction n rule: group_thousands.induct)
  case (1 n)
  show ?case
  proof (cases "n < 1000")
    case True
    then show ?thesis
      by (simp add: group_thousands_lt br_sep_digits filter_digits dec_digits_set)
  next
    case False
    then have ge: "1000 \<le> n" by simp
    have d: "n mod 1000 div 100 < 10" "n mod 100 div 10 < 10" "n mod 10 < 10"
      by simp_all
    from 1 False show ?thesis
      by (simp add: group_thousands_ge [OF ge] dec_digits_ge1000 [OF ge] br_sep_def
          digit_char_not_sep [OF d(1)] digit_char_not_sep [OF d(2)] digit_char_not_sep [OF d(3)])
  qed
qed

lemma group_thousands_set:
  "set (group_thousands n) \<subseteq> insert (CHR '','') (digit_char ` {..<10})"
proof (induction n rule: group_thousands.induct)
  case (1 n)
  show ?case
  proof (cases "n < 1000")
    case True
    then show ?thesis
      using dec_digits_set [of n] by (auto simp: group_thousands_lt)
  next
    case False
    then have ge: "1000 \<le> n" by simp
    have d: "n mod 1000 div 100 < 10" "n mod 100 div 10 < 10" "n mod 10 < 10"
      by simp_all
    from 1 False d show ?thesis
      by (simp add: group_thousands_ge [OF ge])
  qed
qed

section \<open>The formatted amount and its reading\<close>

lemma digit_image_not_sep:
  "c \<in> digit_char ` {..<10} \<Longrightarrow> c \<noteq> CHR '','' \<and> c \<noteq> CHR ''.'' \<and> c \<noteq> CHR ''-''
     \<and> c \<noteq> CHR ''+'' \<and> c \<noteq> CHR ''X'' \<and> c \<noteq> CHR ''R''"
  using digit_char_not_sep by auto

lemma map_comma_digits:
  "set s \<subseteq> digit_char ` {..<10} \<Longrightarrow> map (\<lambda>c. if c = CHR '','' then CHR ''.'' else c) s = s"
  by (induction s) (auto simp: digit_char_not_sep)

lemma br_sep_group_set:
  "set (map br_sep (group_thousands n)) \<subseteq> insert (CHR ''.'') (digit_char ` {..<10})"
proof -
  have "br_sep c \<in> insert (CHR ''.'') (digit_char ` {..<10})"
    if "c \<in> insert (CHR '','') (digit_char ` {..<10})" for c
    using that by (auto simp: br_sep_def digit_char_not_sep)
  with group_thousands_set [of n] show ?thesis by auto
qed

lemma cents_digits:
  "(q::nat) mod 100 div 10 < 10" "q mod 10 < 10"
  by simp_all

lemma format_comma_2f_set:
  "set (format_comma_2f v) \<subseteq>
     insert (CHR ''-'') (insert (CHR '','') (insert (CHR ''.'') (digit_char ` {..<10})))"
proof -
  have "x \<in> insert (CHR '','') (digit_char ` {..<10})" if "x \<in> set (group_thousands n)" for x n
    using that group_thousands_set [of n] by blast
  then show ?thesis
    by (auto simp: format_comma_2f_def Let_def)
qed

lemma format_comma_2f_no_X: "CHR ''X'' \<notin> set (format_comma_2f v)"
  using format_comma_2f_set [of v] digit_image_not_sep [of "CHR ''X''"] by auto

lemma br_format_comma_2f:
  "map br_sep (format_comma_2f v) =
     (if v < 0 then ''-'' else []) @
     map br_sep (group_thousands (nat (round_half_even (\<bar>v\<bar> * 100)) div 100)) @
     CHR '','' # [digit_char (nat (round_half_even (\<bar>v\<bar> * 100)) mod 100 div 10),
                digit_char (nat (round_half_even (\<bar>v\<bar> * 100)) mod 10)]"
  by (simp add: format_comma_2f_def Let_def br_sep_def digit_char_not_sep [OF cents_digits(1)]
      digit_char_not_sep [OF cents_digits(2)])

lemma formatar_moeda_eq: "formatar_moeda v = ''R$ '' @ map br_sep (format_comma_2f v)"
proof -
  have "CHR ''X'' \<notin> set (''R$ '' @ format_comma_2f v)"
    using format_comma_2f_no_X [of v] by simp
  from swap_chain [OF this] show ?thesis
    by (simp add: formatar_moeda_def br_sep_def)
qed


lemma unsigned_float_py_digits:
  assumes D: "set D \<subseteq> digit_char ` {..<10}" "D \<noteq> []"
    and a: "digits_val D 0 = Some a" and b: "digits_val F 0 = Some b"
  shows "unsigned_float_py (D @ CHR ''.'' # F) = Inr (of_nat a + of_nat b / 10 ^ length F)"
proof -
  have nd: "c \<noteq> CHR ''.''" if "c \<in> set D" for c
    using that D(1) digit_image_not_sep [of c] by auto
  have t: "takeWhile (\<lambda>c. c \<noteq> CHR ''.'') (D @ CHR ''.'' # F) = D"
    using nd by (simp add: takeWhile_append2)
  have d: "dropWhile (\<lambda>c. c \<noteq> CHR ''.'') (D @ CHR ''.'' # F) = CHR ''.'' # F"
    using nd by (simp add: dropWhile_append2)
  show ?thesis
    unfolding unsigned_float_py_def t d using D(2) a b by (simp add: Let_def)
qed

lemma digits_val_two:
  "digits_val [digit_char (q mod 100 div 10), digit_char (q mod 10)] 0 = Some (q mod 100)"
proof -
  have "10 * (q mod 100 div 10) + q mod 10 = q mod 100"
    using mod_mult2_eq [of q 10 10] mod_mult_div [of q 10 10] by simp
  then show ?thesis
    by (simp add: digit_val_digit_char)
qed

lemma read_plain:
  "unsigned_float_py (dec_digits (q div 100) @
       CHR ''.'' # [digit_char (q mod 100 div 10), digit_char (q mod 10)])
     = Inr (of_nat q / 100)"
proof -
  have "(of_nat (q div 100) :: rat) + of_nat (q mod 100) / 100 = of_nat q / 100"
  proof -
    have "q = 100 * (q div 100) + q mod 100" by simp
    then have "(of_nat q :: rat) = 100 * of_nat (q div 100) + of_nat (q mod 100)"
      by (metis of_nat_add of_nat_mult of_nat_numeral)
    then show ?thesis by simp
  qed
  with unsigned_float_py_digits [OF dec_digits_set dec_digits_not_Nil digits_val_dec_digits
      digits_val_two, of "q div 100" q]
  show ?thesis by simp
qed

lemma float_py_unsigned:
  "float_py (dec_digits n @ t) = unsigned_float_py (dec_digits n @ t)"
proof -
  obtain c cs where s: "dec_digits n = c # cs"
    using dec_digits_not_Nil [of n] by (cases "dec_digits n") auto
  then have "c \<in> digit_char ` {..<10}"
    using dec_digits_set [of n] by auto
  then have "c \<noteq> CHR ''-''" "c \<noteq> CHR ''+''"
    using digit_image_not_sep [of c] by auto
  then show ?thesis by (simp add: s)
qed

lemma valor_numerico_br:
  "valor_numerico (pre @ map br_sep (format_comma_2f v)) =
     Inr ((if v < 0 then - 1 else 1) * of_nat (nat (round_half_even (\<bar>v\<bar> * 100))) / 100)"
  if pre: "pre = ''R$ '' \<or> pre = []"
proof -
  define q where "q = nat (round_half_even (\<bar>v\<bar> * 100))"
  define sg where "sg = (if v < 0 then ''-'' else [])"
  define G where "G = map br_sep (group_thousands (q div 100))"
  define cents where "cents = [digit_char (q mod 100 div 10), digit_char (q mod 10)]"
  have cents_set: "set cents \<subseteq> digit_char ` {..<10}"
    by (simp add: cents_def)
  have T: "map br_sep (format_comma_2f v) = sg @ G @ CHR '','' # cents"
    by (simp add: br_format_comma_2f q_def sg_def G_def cents_def)
  have G_set: "set G \<subseteq> insert (CHR ''.'') (digit_char ` {..<10})"
    unfolding G_def by (rule br_sep_group_set)
  have noR: "CHR ''R'' \<notin> set (sg @ G @ CHR '','' # cents)"
  proof -
    have "CHR ''R'' \<notin> set G"
      using G_set digit_image_not_sep [of "CHR ''R''"] by auto
    moreover have "CHR ''R'' \<notin> set cents"
      using cents_set digit_image_not_sep [of "CHR ''R''"] by auto
    ultimately show ?thesis by (simp add: sg_def)
  qed
  have s1: "replace_py (pre @ sg @ G @ CHR '','' # cents) ''R$ '' [] = sg @ G @ CHR '','' # cents"
  proof -
    have "replace_py (sg @ G @ CHR '','' # cents) ''R$ '' [] = sg @ G @ CHR '','' # cents"
      by (rule replace_py_absent) (use noR in simp_all)
    with pre show ?thesis
      using replace_py_prefix [of "''R$ ''" "sg @ G @ CHR '','' # cents" "[]"] by auto
  qed
  have s2: "replace_py (sg @ G @ CHR '','' # cents) ''.'' []
      = sg @ dec_digits (q div 100) @ CHR '','' # cents"
    using filter_digits [OF cents_set]
    by (simp add: replace_py_char_del sg_def G_def ungroup_thousands)
  have s3: "replace_py (sg @ dec_digits (q div 100) @ CHR '','' # cents) '','' ''.''
      = sg @ dec_digits (q div 100) @ CHR ''.'' # cents"
    using map_comma_digits [OF cents_set] map_comma_digits [OF dec_digits_set, of "q div 100"]
    by (simp add: replace_py_char_char sg_def)
  have "valor_numerico (pre @ map br_sep (format_comma_2f v))
      = float_py (sg @ dec_digits (q div 100) @ CHR ''.'' # cents)"
    by (simp only: valor_numerico_def T s1 s2 s3)
  also have "\<dots> = Inr ((if v < 0 then - 1 else 1) * of_nat q / 100)"
  proof (cases "v < 0")
    case True
    then show ?thesis
      using read_plain [of q] by (simp add: sg_def cents_def)
  next
    case False
    then show ?thesis
      using read_plain [of q] float_py_unsigned [of "q div 100" "CHR ''.'' # cents"]
      by (simp add: sg_def cents_def)
  qed
  finally show ?thesis by (simp only: q_def)
qed

section \<open>Rounding to the nearest integer, ties to even\<close>

lemma round_half_even_near:
  assumes "\<bar>x - of_int k\<bar> < 1 / 2"
  shows "round_half_even x = k"
proof -
  have lo: "of_int \<lfloor>x\<rfloor> \<le> x" and hi: "x < of_int \<lfloor>x\<rfloor> + 1"
    by linarith+
  consider "\<lfloor>x\<rfloor> = k" | "\<lfloor>x\<rfloor> = k - 1"
  proof -
    have "of_int k - 1 / 2 < x" "x < of_int k + 1 / 2"
      using assms by linarith+
    then have "k - 1 \<le> \<lfloor>x\<rfloor>" "\<lfloor>x\<rfloor> \<le> k"
      by linarith+
    then show ?thesis using that by linarith
  qed
  then show ?thesis
  proof cases
    case 1
    have h: "x - of_int k < 1 / 2"
      using assms by linarith
    show ?thesis
      unfolding round_half_even_def Let_def 1 by (simp only: h if_True)
  next
    case 2
    have h1: "\<not> x - of_int (k - 1) < 1 / 2" and h2: "1 / 2 < x - of_int (k - 1)"
      using assms by (simp_all, linarith+)
    show ?thesis
      unfolding round_half_even_def Let_def 2 by (simp only: h1 h2 if_False if_True)
  qed
qed

lemma round_half_even_tie:
  assumes "x = of_int k + 1 / 2"
  shows "round_half_even x = (if even k then k else k + 1)"
proof -
  have "\<lfloor>x\<rfloor> = k"
    using assms by linarith
  with assms show ?thesis
    by (simp add: round_half_even_def Let_def)
qed

lemma round_half_even_error: "\<bar>of_int (round_half_even x) - x\<bar> \<le> 1 / 2"
proof -
  have lo: "of_int \<lfloor>x\<rfloor> \<le> x" and hi: "x < of_int \<lfloor>x\<rfloor> + 1"
    by linarith+
  then show ?thesis
    by (auto simp: round_half_even_def Let_def)
qed

lemma round_half_even_uminus: "round_half_even (- x) = - round_half_even x"
proof -
  define k where "k = round_half_even x"
  have e: "\<bar>of_int k - x\<bar> \<le> 1 / 2"
    unfolding k_def by (rule round_half_even_error)
  show ?thesis
  proof (cases "\<bar>of_int k - x\<bar> < 1 / 2")
    case True
    then have "\<bar>- x - of_int (- k)\<bar> < 1 / 2" by simp
    from round_half_even_near [OF this] show ?thesis by (simp add: k_def)
  next
    case False
    with e have t: "x = of_int k + 1 / 2 \<or> x = of_int (k - 1) + 1 / 2"
      by (auto simp: abs_if split: if_splits)
    then show ?thesis
    proof
      assume a: "x = of_int k + 1 / 2"
      from round_half_even_tie [OF a] have ev: "even k"
        unfolding k_def [symmetric] by (simp split: if_splits)
      have "- x = of_int (- k - 1) + 1 / 2" using a by simp
      from round_half_even_tie [OF this] ev show ?thesis
        by (simp add: k_def)
    next
      assume a: "x = of_int (k - 1) + 1 / 2"
      from round_half_even_tie [OF a] have od: "odd (k - 1)"
        unfolding k_def [symmetric] by (simp split: if_splits)
      have "- x = of_int (- k) + 1 / 2" using a by simp
      from round_half_even_tie [OF this] od show ?thesis
        by (simp add: k_def)
    qed
  qed
qed

lemma round_half_even_nonneg: "0 \<le> x \<Longrightarrow> 0 \<le> round_half_even x"
proof -
  assume "0 \<le> x"
  then have "0 \<le> \<lfloor>x\<rfloor>" by simp
  then show ?thesis
    by (simp add: round_half_even_def Let_def)
qed

section \<open>Reading a formatted amount gives the rounded amount\<close>

lemma round_2dp_read:
  "(if v < 0 then - 1 else 1) * of_nat (nat (round_half_even (\<bar>v\<bar> * 100))) / 100 = round_2dp v"
proof (cases "v < 0")
  case True
  then have "\<bar>v\<bar> * 100 = - (v * 100)" by simp
  then have r: "round_half_even (\<bar>v\<bar> * 100) = - round_half_even (v * 100)"
    by (simp only: round_half_even_uminus)
  have "0 \<le> round_half_even (\<bar>v\<bar> * 100)"
    by (rule round_half_even_nonneg) simp
  then have "(of_nat (nat (round_half_even (\<bar>v\<bar> * 100))) :: rat)
      = of_int (round_half_even (\<bar>v\<bar> * 100))"
    by simp
  with True r show ?thesis by (simp add: round_2dp_def)
next
  case False
  then have a: "\<bar>v\<bar> = v" by simp
  have "0 \<le> round_half_even (v * 100)"
    by (rule round_half_even_nonneg) (use False in simp)
  then have "(of_nat (nat (round_half_even (v * 100))) :: rat) = of_int (round_half_even (v * 100))"
    by simp
  with False a show ?thesis by (simp add: round_2dp_def)
qed

lemma valor_numerico_formatar_moeda: "valor_numerico (formatar_moeda v) = Inr (round_2dp v)"
  using valor_numerico_br [of "''R$ ''" v] by (simp add: formatar_moeda_eq round_2dp_read)



lemma round_2dp_near:
  "\<bar>v * 100 - of_int k\<bar> < 1 / 2 \<Longrightarrow> round_2dp v = of_int k / 100"
  by (simp add: round_2dp_def round_half_even_near)

lemma format_comma_2f_eval:
  "round_half_even (\<bar>v\<bar> * 100) = int q \<Longrightarrow>
     format_comma_2f v = (if v < 0 then ''-'' else []) @ group_thousands (q div 100) @
         CHR ''.'' # [digit_char (q mod 100 div 10), digit_char (q mod 10)]"
  by (simp add: format_comma_2f_def)

lemmas eval_digits = digit_char_simps dec_digits_lt10 dec_digits_ge10 group_thousands_lt
  group_thousands_ge

section \<open>The two outcomes of each calculator\<close>



section \<open>Evaluating the formatting helpers on given amounts\<close>

lemma br_format_eval:
  assumes "0 \<le> v" "\<bar>v * 100 - of_int (int q)\<bar> < 1 / 2"
  shows "map br_sep (format_comma_2f v) =
     map br_sep (group_thousands (q div 100)) @
     CHR '','' # [digit_char (q mod 100 div 10), digit_char (q mod 10)]"
proof -
  have "\<bar>\<bar>v\<bar> * 100 - of_int (int q)\<bar> < 1 / 2"
    using assms by simp
  then have "round_half_even (\<bar>v\<bar> * 100) = int q"
    by (rule round_half_even_near)
  with assms(1) show ?thesis
    by (simp add: br_format_comma_2f)
qed

lemma formatar_moeda_eval:
  assumes "0 \<le> v" "\<bar>v * 100 - of_int (int q)\<bar> < 1 / 2"
  shows "formatar_moeda v =
     ''R$ '' @ map br_sep (group_thousands (q div 100)) @
     CHR '','' # [digit_char (q mod 100 div 10), digit_char (q mod 10)]"
  by (simp add: formatar_moeda_eq br_format_eval [OF assms])



lemma campo_Some: "campo (Inr (Some d)) k = map_of d k"
  by (simp add: campo_def)


lemma format_0f_eval:
  assumes "0 \<le> v" "\<bar>v - of_int (int q)\<bar> < 1 / 2"
  shows "format_0f v = dec_digits q"
proof -
  have "\<bar>\<bar>v\<bar> - of_int (int q)\<bar> < 1 / 2"
    using assms by simp
  then have "round_half_even \<bar>v\<bar> = int q"
    by (rule round_half_even_near)
  with assms(1) show ?thesis
    by (simp add: format_0f_def)
qed


lemma cenario_B:
  "calcular_custos_completos ''Paris'' 7 2 300 2500 80 500 10 =
     Inr (Some
       [(''destino'', Str ''PARIS''),
        (''num_dias'', Num 7),
        (''num_viajantes'', Num 2),
        (''total_acomodacao'', Str ''R$ 2.100,00''),
        (''total_alimentacao'', Str ''R$ 1.120,00''),
        (''custo_transporte_total'', Str ''R$ 2.500,00''),
        (''custo_atividades_total'', Str ''R$ 500,00''),
        (''subtotal'', Str ''R$ 6.220,00''),
        (''percentual_reserva'', Str ''10%''),
        (''reserva'', Str ''R$ 622,00''),
        (''custo_total_final'', Str ''R$ 6.842,00''),
        (''custo_por_pessoa'', Str ''R$ 3.421,00''),
        (''custo_por_dia_pessoa'', Str ''R$ 488,71'')])"
proof -
  have u: "upper_py ''Paris'' = ''PARIS''"
    by code_simp
  show ?thesis
    using calcular_custos_completos_valid [of 7 2 "''Paris''" 300 2500 80 500 10]
    by (simp add: u format_0f_eval [where q = 10]
        formatar_moeda_eval [where q = 210000] formatar_moeda_eval [where q = 112000]
        formatar_moeda_eval [where q = 250000] formatar_moeda_eval [where q = 50000]
        formatar_moeda_eval [where q = 622000] formatar_moeda_eval [where q = 62200]
        formatar_moeda_eval [where q = 684200] formatar_moeda_eval [where q = 342100]
        formatar_moeda_eval [where q = 48871] eval_digits br_sep_def)
qed


lemma valor_numerico_centavos:
  "valor_numerico (''R$ '' @ map br_sep (group_thousands (q div 100)) @
       CHR '','' # [digit_char (q mod 100 div 10), digit_char (q mod 10)])
     = Inr (of_nat q / 100)"
proof -
  have a: "(0::rat) \<le> of_nat q / 100" "\<bar>of_nat q / 100 * 100 - of_int (int q)\<bar> < (1::rat) / 2"
    by simp_all
  have "round_2dp (of_nat q / 100) = of_nat q / 100"
    using round_2dp_near [of "of_nat q / 100" "int q"] by simp
  with valor_numerico_formatar_moeda [of "of_nat q / 100"] show ?thesis
    by (simp only: formatar_moeda_eval [OF a])
qed

section \<open>The claims of the specification\<close>














text \<open>
  Claim C6, as amended. For seven days, two travellers, 300 per night, 2500 of transport,
  80 of food per day and person, 500 of activities and a reserve of ten per cent, the
  returned amounts are the texts below. They read as 2100, 1120, 6220, 622, 6842 and 3421,
  and the cost per traveller and day as 488.71, the quotient 3421 / 7 rounded to two
  decimals.
\<close>

theorem cenario_B_formatted:
  "calcular_custos_completos ''Paris'' 7 2 300 2500 80 500 10 =
     Inr (Some
       [(''destino'', Str ''PARIS''),
        (''num_dias'', Num 7),
        (''num_viajantes'', Num 2),
        (''total_acomodacao'', Str ''R$ 2.100,00''),
        (''total_alimentacao'', Str ''R$ 1.120,00''),
        (''custo_transporte_total'', Str ''R$ 2.500,00''),
        (''custo_atividades_total'', Str ''R$ 500,00''),
        (''subtotal'', Str ''R$ 6.220,00''),
        (''percentual_reserva'', Str ''10%''),
        (''reserva'', Str ''R$ 622,00''),
        (''custo_total_final'', Str ''R$ 6.842,00''),
        (''custo_por_pessoa'', Str ''R$ 3.421,00''),
        (''custo_por_dia_pessoa'', Str ''R$ 488,71'')])
   \<and> valor_numerico ''R$ 2.100,00'' = Inr 2100
   \<and> valor_numerico ''R$ 1.120,00'' = Inr 1120
   \<and> valor_numerico ''R$ 6.220,00'' = Inr 6220
   \<and> valor_numerico ''R$ 622,00'' = Inr 622
   \<and> valor_numerico ''R$ 6.842,00'' = Inr 6842
   \<and> valor_numerico ''R$ 3.421,00'' = Inr 3421
   \<and> valor_numerico ''R$ 488,71'' = Inr (48871 / 100)
   \<and> round_2dp (3421 / 7) = 48871 / 100"
proof -
  have 1: "valor_numerico ''R$ 2.100,00'' = Inr 2100"
    using valor_numerico_centavos [of 210000] by (simp add: eval_digits br_sep_def)
  have 2: "valor_numerico ''R$ 1.120,00'' = Inr 1120"
    using valor_numerico_centavos [of 112000] by (simp add: eval_digits br_sep_def)
  have 3: "valor_numerico ''R$ 6.220,00'' = Inr 6220"
    using valor_numerico_centavos [of 622000] by (simp add: eval_digits br_sep_def)
  have 4: "valor_numerico ''R$ 622,00'' = Inr 622"
    using valor_numerico_centavos [of 62200] by (simp add: eval_digits br_sep_def)
  have 5: "valor_numerico ''R$ 6.842,00'' = Inr 6842"
    using valor_numerico_centavos [of 684200] by (simp add: eval_digits br_sep_def)
  have 6: "valor_numerico ''R$ 3.421,00'' = Inr 3421"
    using valor_numerico_centavos [of 342100] by (simp add: eval_digits br_sep_def)
  have 7: "valor_numerico ''R$ 488,71'' = Inr (48871 / 100)"
    using valor_numerico_centavos [of 48871] by (simp add: eval_digits br_sep_def)
  have 8: "round_2dp (3421 / 7) = 48871 / 100"
    using round_2dp_near [of "3421 / 7" 48871] by simp
  show ?thesis
    by (intro conjI cenario_B 1 2 3 4 5 6 7 8)
qed

text \<open>
  The claim as stated fails in its last value: the entry \<open>custo_por_dia_pessoa\<close> reads as
  488.71, not as 3421 / 7 = 488.714285...
\<close>

theorem cenario_B_exact_counterexample:
  "campo (calcular_custos_completos ''Paris'' 7 2 300 2500 80 500 10) ''custo_por_dia_pessoa''
     = Some (Str ''R$ 488,71'')
   \<and> valor_numerico ''R$ 488,71'' = Inr (48871 / 100)
   \<and> (48871 / 100 :: rat) \<noteq> 3421 / 7
   \<and> (3421 / 7 :: rat) =
       (300 * 7 + 2500 + 80 * 7 * 2 + 500 + (300 * 7 + 2500 + 80 * 7 * 2 + 500) * 10 / 100) / 2 / 7"
proof -
  have "valor_numerico ''R$ 488,71'' = Inr (48871 / 100)"
    using valor_numerico_centavos [of 48871] by (simp add: eval_digits br_sep_def)
  then show ?thesis
    by (simp add: cenario_B campo_Some)
qed








end
